theory Spec2Isabelle
  imports Main "HOL-Library.Word"
begin

unbundle bit_operations_syntax

section \<open>The PLIC driver of cpu/riscv_common/periph/plic.c\<close>

text \<open>
  The driver runs on a 32-bit RISC-V hart: \<^verbatim>\<open>unsigned\<close>, \<^verbatim>\<open>uint32_t\<close>, the value of
  the \<^verbatim>\<open>mhartid\<close> CSR and addresses are all 32-bit words, and the arithmetic on them
  wraps around.
\<close>

type_synonym u32 = "32 word"

subsection \<open>Platform constants\<close>

text \<open>
  The macros that the platform headers (\<^verbatim>\<open>vendor/plic.h\<close>, \<^verbatim>\<open>cpu_common.h\<close>) supply.
  They are not part of the driver file, so the model takes them as a parameter.
\<close>

record plic_conf =
  PLIC_CTRL_ADDR :: u32
  PLIC_PRIORITY_OFFSET :: u32
  PLIC_ENABLE_OFFSET :: u32
  PLIC_ENABLE_SHIFT_PER_TARGET :: nat
  PLIC_THRESHOLD_OFFSET :: u32
  PLIC_THRESHOLD_SHIFT_PER_TARGET :: nat
  PLIC_CLAIM_OFFSET :: u32
  PLIC_CLAIM_SHIFT_PER_TARGET :: nat
  PLIC_NUM_INTERRUPTS :: u32

subsection \<open>Machine state\<close>

text \<open>
  What the driver does that can be observed from outside: an access to a memory-mapped
  register (address and value) and the call of a registered handler with its argument.
  The handlers' bodies are not part of the driver; a call is recorded, nothing more.
\<close>

datatype 'h event =
    Reg_read u32 u32
  | Reg_write u32 u32
  | Isr_call 'h u32

text \<open>
  \<open>mhartid\<close> is the hart-identification CSR of the running hart, \<open>regs\<close> the
  memory-mapped 32-bit registers by byte address, \<open>ext_isrs\<close> the static array
  \<^verbatim>\<open>_ext_isrs\<close> (a slot is \<open>None\<close> for a null function pointer) and \<open>trace\<close> the
  events so far, oldest first.
\<close>

record 'h plic_state =
  mhartid :: u32
  regs :: "u32 \<Rightarrow> u32"
  ext_isrs :: "'h option list"
  trace :: "'h event list"

text \<open>
  The ways an operation can fail to return: a failed \<^verbatim>\<open>assert\<close> (assertions are
  compiled in), an access to \<^verbatim>\<open>_ext_isrs\<close> beyond its last slot (undefined
  behaviour in C), and the call of a null handler ("just crash hard if no handler is
  available"). A failure ends the run: nothing is done after it.
\<close>

datatype failure =
    Assert_failed
  | Index_out_of_bounds nat
  | No_handler u32

text \<open>
  \<^verbatim>\<open>static plic_isr_cb_t _ext_isrs[PLIC_NUM_INTERRUPTS];\<close> a static array is
  zero-initialised, so the machine starts with \<open>PLIC_NUM_INTERRUPTS\<close> null slots.
\<close>

definition plic_boot :: "plic_conf \<Rightarrow> u32 \<Rightarrow> (u32 \<Rightarrow> u32) \<Rightarrow> 'h plic_state" where
  "plic_boot cf hart r =
     \<lparr>mhartid = hart, regs = r,
      ext_isrs = replicate (unat (PLIC_NUM_INTERRUPTS cf)) None, trace = []\<rparr>"

subsection \<open>Register access\<close>

text \<open>\<^verbatim>\<open>_REG32(p, i)\<close> read and written: one volatile 32-bit access each.\<close>

definition reg32_read :: "u32 \<Rightarrow> 'h plic_state \<Rightarrow> u32 \<times> 'h plic_state" where
  "reg32_read a s = (regs s a, s\<lparr>trace := trace s @ [Reg_read a (regs s a)]\<rparr>)"

definition reg32_write :: "u32 \<Rightarrow> u32 \<Rightarrow> 'h plic_state \<Rightarrow> 'h plic_state" where
  "reg32_write a v s = s\<lparr>regs := (regs s)(a := v), trace := trace s @ [Reg_write a v]\<rparr>"

subsection \<open>Address computation\<close>

text \<open>
  \<^verbatim>\<open>PLIC_REG(offset)\<close> is the word at byte address \<^verbatim>\<open>PLIC_CTRL_ADDR + offset\<close>; each
  function reads \<^verbatim>\<open>mhartid\<close> itself.
\<close>

definition get_claim_complete_addr :: "plic_conf \<Rightarrow> 'h plic_state \<Rightarrow> u32" where
  "get_claim_complete_addr cf s =
     (let hart_id = mhartid s
      in PLIC_CTRL_ADDR cf +
         (PLIC_CLAIM_OFFSET cf + push_bit (PLIC_CLAIM_SHIFT_PER_TARGET cf) hart_id))"

definition get_threshold_addr :: "plic_conf \<Rightarrow> 'h plic_state \<Rightarrow> u32" where
  "get_threshold_addr cf s =
     (let hart_id = mhartid s
      in PLIC_CTRL_ADDR cf +
         (PLIC_THRESHOLD_OFFSET cf + push_bit (PLIC_THRESHOLD_SHIFT_PER_TARGET cf) hart_id))"

text \<open>
  The addition of \<^verbatim>\<open>irq >> 5\<close> is outside the macro, on a \<^verbatim>\<open>uint32_t *\<close>: it
  moves the address by that many words, four bytes each.
\<close>

definition get_irq_reg :: "plic_conf \<Rightarrow> 'h plic_state \<Rightarrow> u32 \<Rightarrow> u32" where
  "get_irq_reg cf s irq =
     (let hart_id = mhartid s
      in PLIC_CTRL_ADDR cf +
         (PLIC_ENABLE_OFFSET cf + push_bit (PLIC_ENABLE_SHIFT_PER_TARGET cf) hart_id) +
         4 * drop_bit 5 irq)"

subsection \<open>Enable, disable, threshold, priority\<close>

text \<open>
  \<^verbatim>\<open>*irq_reg |= 1 << (irq & 0x1f)\<close> and \<^verbatim>\<open>*irq_reg &= ~(1 << (irq & 0x1f))\<close>: a read
  of the word, then a write of it. The shifted \<^verbatim>\<open>1\<close> is an \<^verbatim>\<open>int\<close> converted to
  \<^verbatim>\<open>uint32_t\<close>; for a shift by 31 the compiler this code is built with gives the sign
  bit, which is bit 31 of the word.
\<close>

definition plic_enable_interrupt :: "plic_conf \<Rightarrow> u32 \<Rightarrow> 'h plic_state \<Rightarrow> 'h plic_state" where
  "plic_enable_interrupt cf irq s =
     (let irq_reg = get_irq_reg cf s irq;
          (v, s1) = reg32_read irq_reg s
      in reg32_write irq_reg (v OR push_bit (unat (irq AND 0x1f)) 1) s1)"

definition plic_disable_interrupt :: "plic_conf \<Rightarrow> u32 \<Rightarrow> 'h plic_state \<Rightarrow> 'h plic_state" where
  "plic_disable_interrupt cf irq s =
     (let irq_reg = get_irq_reg cf s irq;
          (v, s1) = reg32_read irq_reg s
      in reg32_write irq_reg (v AND NOT (push_bit (unat (irq AND 0x1f)) 1)) s1)"

definition plic_set_threshold :: "plic_conf \<Rightarrow> u32 \<Rightarrow> 'h plic_state \<Rightarrow> 'h plic_state" where
  "plic_set_threshold cf threshold s =
     (let plic_threshold = get_threshold_addr cf s
      in reg32_write plic_threshold threshold s)"

text \<open>
  The two \<^verbatim>\<open>assert\<close>s, in the source's order, then the write to the word \<^verbatim>\<open>irq\<close>
  words after \<^verbatim>\<open>PLIC_REG(PLIC_PRIORITY_OFFSET)\<close>.
\<close>

definition plic_set_priority ::
  "plic_conf \<Rightarrow> u32 \<Rightarrow> u32 \<Rightarrow> 'h plic_state \<Rightarrow> failure + 'h plic_state" where
  "plic_set_priority cf irq priority s =
     (if \<not> irq \<le> PLIC_NUM_INTERRUPTS cf then Inl Assert_failed
      else if \<not> irq \<noteq> 0 then Inl Assert_failed
      else Inr (reg32_write (PLIC_CTRL_ADDR cf + PLIC_PRIORITY_OFFSET cf + 4 * irq) priority s))"

subsection \<open>Claim and complete\<close>

definition plic_complete_interrupt :: "plic_conf \<Rightarrow> u32 \<Rightarrow> 'h plic_state \<Rightarrow> 'h plic_state" where
  "plic_complete_interrupt cf irq s =
     (let complete_addr = get_claim_complete_addr cf s
      in reg32_write complete_addr irq s)"

text \<open>
  The value of a claim is whatever the controller presents in the claim/complete register
  at that moment; how the controller chooses it is outside the driver.
\<close>

definition plic_claim_interrupt :: "plic_conf \<Rightarrow> 'h plic_state \<Rightarrow> u32 \<times> 'h plic_state" where
  "plic_claim_interrupt cf s = reg32_read (get_claim_complete_addr cf s) s"

subsection \<open>Callback registration\<close>

text \<open>
  \<^verbatim>\<open>_ext_isrs[irq] = cb\<close> after the two \<^verbatim>\<open>assert\<close>s. The array has as many slots as
  the list is long; a store at or after that length is out of bounds.
\<close>

definition plic_set_isr_cb ::
  "plic_conf \<Rightarrow> u32 \<Rightarrow> 'h option \<Rightarrow> 'h plic_state \<Rightarrow> failure + 'h plic_state" where
  "plic_set_isr_cb cf irq cb s =
     (if \<not> irq \<le> PLIC_NUM_INTERRUPTS cf then Inl Assert_failed
      else if \<not> irq \<noteq> 0 then Inl Assert_failed
      else if unat irq < length (ext_isrs s)
        then Inr (s\<lparr>ext_isrs := (ext_isrs s)[unat irq := cb]\<rparr>)
        else Inl (Index_out_of_bounds (unat irq)))"

subsection \<open>Initialisation\<close>

text \<open>
  \<^verbatim>\<open>for (unsigned i = 1; i <= PLIC_NUM_INTERRUPTS; i++)\<close>: the counter is a 32-bit word
  and \<^verbatim>\<open>i++\<close> wraps. A failed assertion inside the body ends the loop.
\<close>

function plic_init_loop :: "plic_conf \<Rightarrow> u32 \<Rightarrow> 'h plic_state \<Rightarrow> failure + 'h plic_state" where
  "plic_init_loop cf i s =
     (if i \<le> PLIC_NUM_INTERRUPTS cf
      then (case plic_set_priority cf i 0 (plic_disable_interrupt cf i s) of
              Inl e \<Rightarrow> Inl e
            | Inr s' \<Rightarrow> plic_init_loop cf (i + 1) s')
      else Inr s)"
  by pat_completeness auto
termination
proof (relation "measure (\<lambda>(cf, i, s). if i = 0 then 0 else 2 ^ 32 - unat i)")
  show "wf (measure (\<lambda>(cf, i, s). if i = 0 then 0 else 2 ^ 32 - unat (i :: u32)))"
    by simp
next
  fix cf :: plic_conf and i :: u32 and s :: "'h plic_state" and s' :: "'h plic_state"
  assume le: "i \<le> PLIC_NUM_INTERRUPTS cf"
    and ok: "plic_set_priority cf i 0 (plic_disable_interrupt cf i s) = Inr s'"
  from ok have nz: "i \<noteq> 0"
    by (auto simp: plic_set_priority_def split: if_splits)
  have lt: "unat i < 2 ^ 32"
    using unsigned_less [of i] by simp
  show "((cf, i + 1, s'), (cf, i, s))
          \<in> measure (\<lambda>(cf, i, s). if i = 0 then 0 else 2 ^ 32 - unat i)"
  proof (cases "i + 1 = 0")
    case True
    with nz lt show ?thesis by simp
  next
    case False
    then have "unat (i + 1) = unat i + 1"
      using unatSuc [of i] by (simp add: add.commute)
    with nz lt False show ?thesis by simp
  qed
qed

declare plic_init_loop.simps [simp del]

definition plic_init :: "plic_conf \<Rightarrow> 'h plic_state \<Rightarrow> failure + 'h plic_state" where
  "plic_init cf s =
     (case plic_init_loop cf 1 s of
        Inl e \<Rightarrow> Inl e
      | Inr s' \<Rightarrow> Inr (plic_set_threshold cf 0 s'))"

subsection \<open>Dispatch\<close>

text \<open>
  \<^verbatim>\<open>_ext_isrs[irq](irq)\<close> with no check of \<^verbatim>\<open>irq\<close>: a read of the array at the
  claimed number, in bounds or not, and a call through what the slot holds.
\<close>

definition plic_isr_handler :: "plic_conf \<Rightarrow> 'h plic_state \<Rightarrow> failure + 'h plic_state" where
  "plic_isr_handler cf s =
     (let (irq, s1) = plic_claim_interrupt cf s
      in if unat irq < length (ext_isrs s1)
         then (case ext_isrs s1 ! unat irq of
                 None \<Rightarrow> Inl (No_handler irq)
               | Some h \<Rightarrow>
                   Inr (plic_complete_interrupt cf irq
                          (s1\<lparr>trace := trace s1 @ [Isr_call h irq]\<rparr>)))
         else Inl (Index_out_of_bounds (unat irq)))"

subsection \<open>An example platform\<close>

text \<open>
  Concrete constants to evaluate the driver on: the register layout of the SiFive PLIC
  (priorities at the base, enable words from \<open>0x2000\<close> with \<open>0x80\<close> bytes per hart,
  threshold and claim/complete from \<open>0x200000\<close> with \<open>0x1000\<close> bytes per hart) and
  eight interrupt sources. Handlers are named by numbers.
\<close>

definition demo_conf :: plic_conf where
  "demo_conf =
     \<lparr>PLIC_CTRL_ADDR = 0x0C000000,
      PLIC_PRIORITY_OFFSET = 0,
      PLIC_ENABLE_OFFSET = 0x2000,
      PLIC_ENABLE_SHIFT_PER_TARGET = 7,
      PLIC_THRESHOLD_OFFSET = 0x200000,
      PLIC_THRESHOLD_SHIFT_PER_TARGET = 12,
      PLIC_CLAIM_OFFSET = 0x200004,
      PLIC_CLAIM_SHIFT_PER_TARGET = 12,
      PLIC_NUM_INTERRUPTS = 8\<rparr>"

text \<open>
  Hart 0 right after start-up, every register holding \<open>fill\<close> except the claim/complete
  register of hart 0, where the controller presents \<open>irq\<close>.
\<close>

definition demo_state :: "u32 \<Rightarrow> u32 \<Rightarrow> nat plic_state" where
  "demo_state fill irq = plic_boot demo_conf 0 ((\<lambda>a. fill)(0x0C200004 := irq))"

section \<open>Properties\<close>

subsection \<open>Word arithmetic of the bit and word index\<close>

lemma mask5: "(0x1f :: u32) = mask 5"
  by (simp add: mask_eq_exp_minus_1)

lemma irq_bit_index: "unat ((irq :: u32) AND 0x1f) = unat irq mod 32"
proof -
  have "irq AND 0x1f = take_bit 5 irq"
    by (simp only: mask5 take_bit_eq_mask)
  then show ?thesis
    by (simp add: take_bit_eq_mod unat_mod)
qed

lemma irq_word_index: "unat (drop_bit 5 (irq :: u32)) = unat irq div 32"
  by (simp add: drop_bit_eq_div unat_div)

lemma word_index_bound: "unat (drop_bit 5 (irq :: u32)) < 2 ^ 27"
proof -
  have "unat irq < 2 ^ 32" using unsigned_less [of irq] by simp
  then show ?thesis by (simp add: irq_word_index)
qed

lemma unat_4_word_index: "unat (4 * drop_bit 5 (irq :: u32)) = 4 * (unat irq div 32)"
proof -
  have "unat (4 * drop_bit 5 irq) = unat (4 :: u32) * unat (drop_bit 5 irq)"
    using word_index_bound [of irq] by (subst unat_mult_lem [THEN iffD1]) simp_all
  then show ?thesis by (simp add: irq_word_index)
qed

lemma get_irq_reg_eq_iff:
  "get_irq_reg cf s irq = get_irq_reg cf s irq' \<longleftrightarrow> unat irq div 32 = unat irq' div 32"
proof -
  have "get_irq_reg cf s irq = get_irq_reg cf s irq' \<longleftrightarrow>
        (4 :: u32) * drop_bit 5 irq = 4 * drop_bit 5 irq'"
    by (simp add: get_irq_reg_def)
  also have "\<dots> \<longleftrightarrow> unat ((4 :: u32) * drop_bit 5 irq) = unat ((4 :: u32) * drop_bit 5 irq')"
    by (simp only: word_unat_eq_iff)
  finally show ?thesis by (simp add: unat_4_word_index)
qed


lemma bit_or_one: "k < 32 \<Longrightarrow> bit ((v :: u32) OR 2 ^ k) n = (bit v n \<or> n = k)"
  by (auto simp: bit_simps)

lemma bit_clear_one:
  "k < 32 \<Longrightarrow> bit ((v :: u32) AND NOT (2 ^ k)) n = (bit v n \<and> n \<noteq> k)"
  by (auto simp: bit_simps dest: bit_imp_le_length)

subsection \<open>What one register access does\<close>

lemma reg32_write_simps [simp]:
  "mhartid (reg32_write a v s) = mhartid s"
  "regs (reg32_write a v s) = (regs s)(a := v)"
  "ext_isrs (reg32_write a v s) = ext_isrs s"
  "trace (reg32_write a v s) = trace s @ [Reg_write a v]"
  by (simp_all add: reg32_write_def)

lemma reg32_read_simps [simp]:
  "fst (reg32_read a s) = regs s a"
  "mhartid (snd (reg32_read a s)) = mhartid s"
  "regs (snd (reg32_read a s)) = regs s"
  "ext_isrs (snd (reg32_read a s)) = ext_isrs s"
  "trace (snd (reg32_read a s)) = trace s @ [Reg_read a (regs s a)]"
  by (simp_all add: reg32_read_def)

lemma plic_enable_interrupt_eq:
  "plic_enable_interrupt cf irq s =
     s\<lparr>regs := (regs s)(get_irq_reg cf s irq :=
               regs s (get_irq_reg cf s irq) OR 2 ^ (unat irq mod 32)),
       trace := trace s @
         [Reg_read (get_irq_reg cf s irq) (regs s (get_irq_reg cf s irq)),
          Reg_write (get_irq_reg cf s irq)
            (regs s (get_irq_reg cf s irq) OR 2 ^ (unat irq mod 32))]\<rparr>"
  by (simp add: plic_enable_interrupt_def reg32_read_def reg32_write_def irq_bit_index Let_def)

lemma plic_disable_interrupt_eq:
  "plic_disable_interrupt cf irq s =
     s\<lparr>regs := (regs s)(get_irq_reg cf s irq :=
               regs s (get_irq_reg cf s irq) AND NOT (2 ^ (unat irq mod 32))),
       trace := trace s @
         [Reg_read (get_irq_reg cf s irq) (regs s (get_irq_reg cf s irq)),
          Reg_write (get_irq_reg cf s irq)
            (regs s (get_irq_reg cf s irq) AND NOT (2 ^ (unat irq mod 32)))]\<rparr>"
  by (simp add: plic_disable_interrupt_def reg32_read_def reg32_write_def irq_bit_index Let_def)

lemma get_irq_reg_cong: "mhartid s' = mhartid s \<Longrightarrow> get_irq_reg cf s' irq = get_irq_reg cf s irq"
  by (simp add: get_irq_reg_def)

lemma get_threshold_addr_cong: "mhartid s' = mhartid s \<Longrightarrow> get_threshold_addr cf s' = get_threshold_addr cf s"
  by (simp add: get_threshold_addr_def)

lemma get_claim_complete_addr_cong: "mhartid s' = mhartid s \<Longrightarrow> get_claim_complete_addr cf s' = get_claim_complete_addr cf s"
  by (simp add: get_claim_complete_addr_def)

subsection \<open>Enable and disable\<close>

text \<open>
  Claim C6. For every interrupt number and every prior state of the registers, enabling and
  then disabling the number leaves every bit of its enable word other than bit
  \<open>irq mod 32\<close> as it was, leaves every register at another address as it was, and
  in particular leaves the enable word of every number with another word index
  \<open>irq div 32\<close> as it was.
\<close>

theorem enable_then_disable_bit_precise:
  "(\<forall>n. n \<noteq> unat irq mod 32 \<longrightarrow>
        bit (regs (plic_disable_interrupt cf irq (plic_enable_interrupt cf irq s))
               (get_irq_reg cf s irq)) n
        = bit (regs s (get_irq_reg cf s irq)) n) \<and>
   (\<forall>a. a \<noteq> get_irq_reg cf s irq \<longrightarrow>
        regs (plic_disable_interrupt cf irq (plic_enable_interrupt cf irq s)) a = regs s a) \<and>
   (\<forall>irq'. unat irq' div 32 \<noteq> unat irq div 32 \<longrightarrow>
        regs (plic_disable_interrupt cf irq (plic_enable_interrupt cf irq s))
          (get_irq_reg cf s irq')
        = regs s (get_irq_reg cf s irq'))"
proof -
  let ?a = "get_irq_reg cf s irq"
  let ?s1 = "plic_enable_interrupt cf irq s"
  let ?s2 = "plic_disable_interrupt cf irq ?s1"
  have k: "unat irq mod 32 < 32" by simp
  have a1: "get_irq_reg cf ?s1 irq = ?a"
    by (rule get_irq_reg_cong) (simp add: plic_enable_interrupt_eq)
  have r2: "regs ?s2 = (regs s)(?a := (regs s ?a OR 2 ^ (unat irq mod 32))
                                   AND NOT (2 ^ (unat irq mod 32)))"
    by (simp add: plic_disable_interrupt_eq [of cf irq ?s1] a1) (simp add: plic_enable_interrupt_eq)
  have "\<forall>n. n \<noteq> unat irq mod 32 \<longrightarrow> bit (regs ?s2 ?a) n = bit (regs s ?a) n"
    by (simp add: r2 bit_clear_one [OF k] bit_or_one [OF k])
  moreover have other: "\<forall>a. a \<noteq> ?a \<longrightarrow> regs ?s2 a = regs s a"
    by (simp add: r2)
  moreover have "\<forall>irq'. unat irq' div 32 \<noteq> unat irq div 32 \<longrightarrow>
        regs ?s2 (get_irq_reg cf s irq') = regs s (get_irq_reg cf s irq')"
    using other by (simp add: get_irq_reg_eq_iff)
  ultimately show ?thesis by blast
qed


text \<open>
  Interrupt 3 on the example platform, with every register holding \<open>0xF0F0F0F0\<close>:
  bit 5 of its enable word, the next enable word, and the enable word of interrupt 40 are
  the same before and after.
\<close>

theorem enable_then_disable_bit_precise_witness:
  "(5 :: nat) \<noteq> unat (3 :: u32) mod 32 \<and>
   bit (regs (plic_disable_interrupt demo_conf 3
                (plic_enable_interrupt demo_conf 3 (demo_state 0xF0F0F0F0 0)))
          (get_irq_reg demo_conf (demo_state 0xF0F0F0F0 0) 3)) 5
   = bit (regs (demo_state 0xF0F0F0F0 0) (get_irq_reg demo_conf (demo_state 0xF0F0F0F0 0) 3)) 5 \<and>
   (0x0C002004 :: u32) \<noteq> get_irq_reg demo_conf (demo_state 0xF0F0F0F0 0) 3 \<and>
   regs (plic_disable_interrupt demo_conf 3
           (plic_enable_interrupt demo_conf 3 (demo_state 0xF0F0F0F0 0))) 0x0C002004
   = regs (demo_state 0xF0F0F0F0 0) 0x0C002004 \<and>
   unat (40 :: u32) div 32 \<noteq> unat (3 :: u32) div 32 \<and>
   regs (plic_disable_interrupt demo_conf 3
           (plic_enable_interrupt demo_conf 3 (demo_state 0xF0F0F0F0 0)))
     (get_irq_reg demo_conf (demo_state 0xF0F0F0F0 0) 40)
   = regs (demo_state 0xF0F0F0F0 0) (get_irq_reg demo_conf (demo_state 0xF0F0F0F0 0) 40)"
proof -
  let ?s = "demo_state 0xF0F0F0F0 0"
  note p = enable_then_disable_bit_precise [of 3 demo_conf ?s]
  have n: "(5 :: nat) \<noteq> unat (3 :: u32) mod 32"
    by simp
  have a: "(0x0C002004 :: u32) \<noteq> get_irq_reg demo_conf ?s 3"
    by (simp add: get_irq_reg_def demo_conf_def demo_state_def plic_boot_def)
  have w: "unat (40 :: u32) div 32 \<noteq> unat (3 :: u32) div 32"
    by simp
  from p n have "bit (regs (plic_disable_interrupt demo_conf 3
                (plic_enable_interrupt demo_conf 3 ?s)) (get_irq_reg demo_conf ?s 3)) 5
      = bit (regs ?s (get_irq_reg demo_conf ?s 3)) 5"
    by blast
  moreover from p a have "regs (plic_disable_interrupt demo_conf 3
           (plic_enable_interrupt demo_conf 3 ?s)) 0x0C002004 = regs ?s 0x0C002004"
    by blast
  moreover from p w have "regs (plic_disable_interrupt demo_conf 3
           (plic_enable_interrupt demo_conf 3 ?s)) (get_irq_reg demo_conf ?s 40)
      = regs ?s (get_irq_reg demo_conf ?s 40)"
    by blast
  ultimately show ?thesis using n a w by blast
qed

text \<open>
  Claim C7. The enable word of an interrupt number is at byte address base plus enable
  offset plus hart number times the per-hart stride \<open>2 ^ PLIC_ENABLE_SHIFT_PER_TARGET\<close>
  plus \<open>irq div 32\<close> words of four bytes, the hart number being the value of
  \<open>mhartid\<close> in the state the call is made in; enabling sets bit \<open>irq mod 32\<close> of
  that word and disabling clears it, every other bit of the word keeping its value.
\<close>

theorem enable_word_address_and_bit:
  "get_irq_reg cf s irq =
     PLIC_CTRL_ADDR cf + PLIC_ENABLE_OFFSET cf
       + mhartid s * 2 ^ PLIC_ENABLE_SHIFT_PER_TARGET cf + 4 * (irq div 32) \<and>
   (\<forall>n. bit (regs (plic_enable_interrupt cf irq s) (get_irq_reg cf s irq)) n
        = (bit (regs s (get_irq_reg cf s irq)) n \<or> n = unat irq mod 32)) \<and>
   (\<forall>n. bit (regs (plic_disable_interrupt cf irq s) (get_irq_reg cf s irq)) n
        = (bit (regs s (get_irq_reg cf s irq)) n \<and> n \<noteq> unat irq mod 32))"
proof -
  have k: "unat irq mod 32 < 32" by simp
  have "get_irq_reg cf s irq =
     PLIC_CTRL_ADDR cf + PLIC_ENABLE_OFFSET cf
       + mhartid s * 2 ^ PLIC_ENABLE_SHIFT_PER_TARGET cf + 4 * (irq div 32)"
    by (simp add: get_irq_reg_def push_bit_eq_mult drop_bit_eq_div)
  moreover have "\<forall>n. bit (regs (plic_enable_interrupt cf irq s) (get_irq_reg cf s irq)) n
        = (bit (regs s (get_irq_reg cf s irq)) n \<or> n = unat irq mod 32)"
    by (simp add: plic_enable_interrupt_eq bit_or_one [OF k])
  moreover have "\<forall>n. bit (regs (plic_disable_interrupt cf irq s) (get_irq_reg cf s irq)) n
        = (bit (regs s (get_irq_reg cf s irq)) n \<and> n \<noteq> unat irq mod 32)"
    by (simp add: plic_disable_interrupt_eq bit_clear_one [OF k])
  ultimately show ?thesis by blast
qed


lemma demo_state_simps [simp]:
  "mhartid (demo_state fill irq) = 0"
  "regs (demo_state fill irq) = (\<lambda>a. fill)(0x0C200004 := irq)"
  "ext_isrs (demo_state fill irq) = replicate 8 None"
  "trace (demo_state fill irq) = []"
  by (simp_all add: demo_state_def plic_boot_def demo_conf_def)

lemma demo_addrs [simp]:
  "get_irq_reg demo_conf s irq = 0x0C002000 + mhartid s * 0x80 + 4 * (irq div 32)"
  "get_threshold_addr demo_conf s = 0x0C200000 + mhartid s * 0x1000"
  "get_claim_complete_addr demo_conf s = 0x0C200004 + mhartid s * 0x1000"
  by (simp_all add: get_irq_reg_def get_threshold_addr_def get_claim_complete_addr_def
        demo_conf_def push_bit_eq_mult drop_bit_eq_div)

text \<open>Interrupt 37 on hart 2 of the example platform: word 1 of that hart, bit 5.\<close>

theorem enable_word_address_and_bit_witness:
  "get_irq_reg demo_conf (demo_state 0 0\<lparr>mhartid := 2\<rparr>) 37 = 0x0C002104 \<and>
   bit (regs (plic_enable_interrupt demo_conf 37 (demo_state 0 0\<lparr>mhartid := 2\<rparr>)) 0x0C002104) 5"
proof -
  let ?s = "demo_state 0 0\<lparr>mhartid := 2\<rparr>"
  have a: "get_irq_reg demo_conf ?s 37 = 0x0C002104"
    by simp
  have "\<forall>n. bit (regs (plic_enable_interrupt demo_conf 37 ?s) (get_irq_reg demo_conf ?s 37)) n
        = (bit (regs ?s (get_irq_reg demo_conf ?s 37)) n \<or> n = unat (37 :: u32) mod 32)"
    using enable_word_address_and_bit [of demo_conf ?s 37] by blast
  then have "bit (regs (plic_enable_interrupt demo_conf 37 ?s) (get_irq_reg demo_conf ?s 37)) 5"
    by simp
  with a show ?thesis by simp
qed


text \<open>
  Claim C8. Enabling and disabling check nothing: they are total on the state, and for every
  32-bit number, 0 and numbers above \<open>PLIC_NUM_INTERRUPTS\<close> included, they do one
  read and then one write of the same enable word and nothing else; that word lies
  \<open>irq div 32\<close> words after the hart's first enable word.
\<close>

theorem enable_disable_unchecked:
  "plic_enable_interrupt cf irq s =
     s\<lparr>regs := (regs s)(get_irq_reg cf s irq :=
               regs s (get_irq_reg cf s irq) OR 2 ^ (unat irq mod 32)),
       trace := trace s @
         [Reg_read (get_irq_reg cf s irq) (regs s (get_irq_reg cf s irq)),
          Reg_write (get_irq_reg cf s irq)
            (regs s (get_irq_reg cf s irq) OR 2 ^ (unat irq mod 32))]\<rparr> \<and>
   plic_disable_interrupt cf irq s =
     s\<lparr>regs := (regs s)(get_irq_reg cf s irq :=
               regs s (get_irq_reg cf s irq) AND NOT (2 ^ (unat irq mod 32))),
       trace := trace s @
         [Reg_read (get_irq_reg cf s irq) (regs s (get_irq_reg cf s irq)),
          Reg_write (get_irq_reg cf s irq)
            (regs s (get_irq_reg cf s irq) AND NOT (2 ^ (unat irq mod 32)))]\<rparr> \<and>
   unat (get_irq_reg cf s irq - get_irq_reg cf s 0) = 4 * (unat irq div 32)"
proof -
  have "get_irq_reg cf s irq - get_irq_reg cf s 0 = 4 * drop_bit 5 irq"
    by (simp add: get_irq_reg_def)
  then have "unat (get_irq_reg cf s irq - get_irq_reg cf s 0) = 4 * (unat irq div 32)"
    by (simp only: unat_4_word_index)
  then show ?thesis
    by (simp only: plic_enable_interrupt_eq plic_disable_interrupt_eq simp_thms)
qed

text \<open>
  Numbers 0 and 100 on the example platform, which has eight interrupts: a read and a write
  of word 0, and of word 3.
\<close>

theorem enable_disable_unchecked_witness:
  "trace (plic_enable_interrupt demo_conf 0 (demo_state 5 0)) =
     [Reg_read 0x0C002000 5, Reg_write 0x0C002000 5] \<and>
   trace (plic_disable_interrupt demo_conf 100 (demo_state 0xFF 0)) =
     [Reg_read 0x0C00200C 0xFF, Reg_write 0x0C00200C 0xEF]"
proof -
  have "trace (plic_enable_interrupt demo_conf 0 (demo_state 5 0)) =
     [Reg_read 0x0C002000 5, Reg_write 0x0C002000 5]"
    by (subst enable_disable_unchecked [THEN conjunct1]) simp
  moreover have "trace (plic_disable_interrupt demo_conf 100 (demo_state 0xFF 0)) =
     [Reg_read 0x0C00200C 0xFF, Reg_write 0x0C00200C 0xEF]"
    by (subst enable_disable_unchecked [THEN conjunct2, THEN conjunct1]) simp
  ultimately show ?thesis by simp
qed

subsection \<open>Threshold\<close>

text \<open>
  Claim C10. Setting the threshold writes the given value, whatever it is, to the threshold
  register of the calling hart: the state afterwards is the state before with that one
  register holding the value and that one write added to the trace. No other register, the
  callback table and the hart register are all as before.
\<close>

theorem set_threshold_verbatim:
  "plic_set_threshold cf threshold s =
     s\<lparr>regs := (regs s)(PLIC_CTRL_ADDR cf + PLIC_THRESHOLD_OFFSET cf
                          + mhartid s * 2 ^ PLIC_THRESHOLD_SHIFT_PER_TARGET cf := threshold),
       trace := trace s @
         [Reg_write (PLIC_CTRL_ADDR cf + PLIC_THRESHOLD_OFFSET cf
                       + mhartid s * 2 ^ PLIC_THRESHOLD_SHIFT_PER_TARGET cf) threshold]\<rparr>"
  by (simp add: plic_set_threshold_def get_threshold_addr_def reg32_write_def push_bit_eq_mult
        add.assoc Let_def)

text \<open>
  The largest 32-bit value as threshold on the example platform: it is stored as given, the
  neighbouring claim/complete register and the callback table keep their contents.
\<close>

theorem set_threshold_verbatim_witness:
  "regs (plic_set_threshold demo_conf 0xFFFFFFFF (demo_state 0 0)) 0x0C200000 = 0xFFFFFFFF \<and>
   regs (plic_set_threshold demo_conf 0xFFFFFFFF (demo_state 0 0)) 0x0C200004 = 0 \<and>
   ext_isrs (plic_set_threshold demo_conf 0xFFFFFFFF (demo_state 0 0)) = replicate 8 None"
  by (subst set_threshold_verbatim)+ (simp add: demo_conf_def)


subsection \<open>Priority and callback registration\<close>

lemma plic_set_isr_cb_stores:
  "irq \<noteq> 0 \<Longrightarrow> irq \<le> PLIC_NUM_INTERRUPTS cf \<Longrightarrow> unat irq < length (ext_isrs s) \<Longrightarrow>
   plic_set_isr_cb cf irq cb s = Inr (s\<lparr>ext_isrs := (ext_isrs s)[unat irq := cb]\<rparr>)"
  by (simp add: plic_set_isr_cb_def)

lemma plic_set_isr_cb_length:
  "plic_set_isr_cb cf irq cb s = Inr s' \<Longrightarrow> length (ext_isrs s') = length (ext_isrs s)"
  by (auto simp: plic_set_isr_cb_def split: if_splits)

lemma plic_set_isr_cb_slot0:
  "plic_set_isr_cb cf irq cb s = Inr s' \<Longrightarrow> ext_isrs s' ! 0 = ext_isrs s ! 0"
  by (auto simp: plic_set_isr_cb_def unat_eq_0 split: if_splits)

lemma plic_boot_table:
  "length (ext_isrs (plic_boot cf hart r)) = unat (PLIC_NUM_INTERRUPTS cf)"
  "n < unat (PLIC_NUM_INTERRUPTS cf) \<Longrightarrow> ext_isrs (plic_boot cf hart r) ! n = None"
  by (simp_all add: plic_boot_def)

lemma plic_set_isr_cb_last_id:
  "length (ext_isrs s) = unat (PLIC_NUM_INTERRUPTS cf) \<Longrightarrow> PLIC_NUM_INTERRUPTS cf \<noteq> 0 \<Longrightarrow>
   plic_set_isr_cb cf (PLIC_NUM_INTERRUPTS cf) cb s
     = Inl (Index_out_of_bounds (unat (PLIC_NUM_INTERRUPTS cf)))"
  by (simp add: plic_set_isr_cb_def)

text \<open>
  Claim C1. The claim asks for a table of \<open>PLIC_NUM_INTERRUPTS + 1\<close> slots, in which a
  registration for every number from 1 to \<open>PLIC_NUM_INTERRUPTS\<close> is a store in bounds.
  The array has \<open>PLIC_NUM_INTERRUPTS\<close> slots. On the example platform, with eight
  interrupts and a table of eight slots, registering a handler for interrupt 8 passes both
  assertions and then stores at index 8, after the last slot.
\<close>

theorem set_isr_cb_last_id_out_of_bounds:
  "length (ext_isrs (demo_state 0 0)) = 8 \<and>
   plic_set_isr_cb demo_conf 8 (Some 1) (demo_state 0 0) = Inl (Index_out_of_bounds 8)"
  using plic_set_isr_cb_last_id [of "demo_state 0 0" demo_conf "Some 1"]
  by (simp add: demo_conf_def)

text \<open>
  What the two operations return, for every number. Outside 1 to
  \<open>PLIC_NUM_INTERRUPTS\<close>, number 0 included, both end in the failed assertion, and
  only there. Inside that range setting the priority returns with the value written to the
  priority register of the number; registering a callback returns with the handler stored
  in the slot of the number when the table has that slot, and ends in the out-of-bounds
  failure when it has not.
\<close>

lemma priority_and_callback_results:
  "(plic_set_priority cf irq priority s = Inl Assert_failed)
     = (irq = 0 \<or> PLIC_NUM_INTERRUPTS cf < irq) \<and>
   (plic_set_isr_cb cf irq cb s = Inl Assert_failed)
     = (irq = 0 \<or> PLIC_NUM_INTERRUPTS cf < irq) \<and>
   (irq \<noteq> 0 \<and> irq \<le> PLIC_NUM_INTERRUPTS cf \<longrightarrow>
      plic_set_priority cf irq priority s
        = Inr (reg32_write (PLIC_CTRL_ADDR cf + PLIC_PRIORITY_OFFSET cf + 4 * irq) priority s) \<and>
      plic_set_isr_cb cf irq cb s
        = (if unat irq < length (ext_isrs s)
           then Inr (s\<lparr>ext_isrs := (ext_isrs s)[unat irq := cb]\<rparr>)
           else Inl (Index_out_of_bounds (unat irq))))"
  by (auto simp: plic_set_priority_def plic_set_isr_cb_def not_le)

text \<open>
  With the table as it is declared, \<open>PLIC_NUM_INTERRUPTS\<close> slots, a registration for a
  number in the asserted range returns exactly when the number is below
  \<open>PLIC_NUM_INTERRUPTS\<close>.
\<close>

lemma plic_set_isr_cb_returns_iff:
  assumes "length (ext_isrs s) = unat (PLIC_NUM_INTERRUPTS cf)"
  shows "(\<exists>s'. plic_set_isr_cb cf irq cb s = Inr s') = (irq \<noteq> 0 \<and> irq < PLIC_NUM_INTERRUPTS cf)"
  using assms by (auto simp: plic_set_isr_cb_def word_less_nat_alt word_le_nat_alt)


subsection \<open>Dispatch\<close>

lemma plic_isr_handler_eq:
  "plic_isr_handler cf s =
     (if unat (regs s (get_claim_complete_addr cf s)) < length (ext_isrs s)
      then (case ext_isrs s ! unat (regs s (get_claim_complete_addr cf s)) of
              None \<Rightarrow> Inl (No_handler (regs s (get_claim_complete_addr cf s)))
            | Some h \<Rightarrow>
                Inr (s\<lparr>regs := (regs s)(get_claim_complete_addr cf s :=
                                         regs s (get_claim_complete_addr cf s)),
                        trace := trace s @
                          [Reg_read (get_claim_complete_addr cf s)
                             (regs s (get_claim_complete_addr cf s)),
                           Isr_call h (regs s (get_claim_complete_addr cf s)),
                           Reg_write (get_claim_complete_addr cf s)
                             (regs s (get_claim_complete_addr cf s))]\<rparr>))
      else Inl (Index_out_of_bounds (unat (regs s (get_claim_complete_addr cf s)))))"
  by (simp add: plic_isr_handler_def plic_claim_interrupt_def plic_complete_interrupt_def
        reg32_read_def reg32_write_def get_claim_complete_addr_def Let_def
      split: option.split)

text \<open>
  The example platform right after start-up, with nothing pending: the claim register
  presents 0, and the dispatch entry does not return.
\<close>

theorem dispatch_id0_counterexample:
  "regs (demo_state 0 0) (get_claim_complete_addr demo_conf (demo_state 0 0)) = 0 \<and>
   plic_isr_handler demo_conf (demo_state 0 0) = Inl (No_handler 0)"
  by (simp add: plic_isr_handler_eq)

text \<open>
  Claim C2, amended. When the claim read gives 0 and slot 0 of the callback table is empty,
  as it is from start-up on since registration rejects number 0, the dispatch entry calls no
  handler, but it does not pass over the number either: it indexes the table with it like
  with any other number and ends in the fatal no-handler failure, without returning.
\<close>

theorem dispatch_id0_no_handler:
  "regs s (get_claim_complete_addr cf s) = 0 \<Longrightarrow> ext_isrs s \<noteq> [] \<Longrightarrow> ext_isrs s ! 0 = None \<Longrightarrow>
   plic_isr_handler cf s = Inl (No_handler 0)"
  by (simp add: plic_isr_handler_eq)

text \<open>The example platform after start-up, every other register holding 9.\<close>

theorem dispatch_id0_no_handler_witness:
  "regs (demo_state 9 0) (get_claim_complete_addr demo_conf (demo_state 9 0)) = 0 \<and>
   ext_isrs (demo_state 9 0) \<noteq> [] \<and> ext_isrs (demo_state 9 0) ! 0 = None \<and>
   plic_isr_handler demo_conf (demo_state 9 0) = Inl (No_handler 0)"
proof -
  have 1: "regs (demo_state 9 0) (get_claim_complete_addr demo_conf (demo_state 9 0)) = 0"
    by simp
  have 2: "ext_isrs (demo_state 9 0) \<noteq> []"
    by simp
  have 3: "ext_isrs (demo_state 9 0) ! 0 = None"
    by simp
  from 1 2 3 dispatch_id0_no_handler [OF 1 2 3] show ?thesis by blast
qed

text \<open>
  The example platform after start-up with interrupt 5 presented for claim and no handler
  registered: the dispatch entry stops after the claim, with no call and no completion.
\<close>

theorem dispatch_without_handler_counterexample:
  "regs (demo_state 0 5) (get_claim_complete_addr demo_conf (demo_state 0 5)) = 5 \<and>
   plic_isr_handler demo_conf (demo_state 0 5) = Inl (No_handler 5)"
  by (simp add: plic_isr_handler_eq)

text \<open>
  Claim C3, amended. When the callback table holds a handler in the slot of the number that
  the claim register presents, a call of the dispatch entry does exactly three things, in
  this order: one read of the calling hart's claim/complete register, one call of that
  handler with the number read as argument, one write of that number to the same
  claim/complete register; then it returns. When the slot is empty it ends in the fatal
  no-handler failure instead.
\<close>

theorem dispatch_claim_call_complete:
  "unat (regs s (get_claim_complete_addr cf s)) < length (ext_isrs s) \<Longrightarrow>
   (\<forall>h. ext_isrs s ! unat (regs s (get_claim_complete_addr cf s)) = Some h \<longrightarrow>
      plic_isr_handler cf s =
        Inr (s\<lparr>regs := (regs s)(get_claim_complete_addr cf s :=
                                 regs s (get_claim_complete_addr cf s)),
                trace := trace s @
                  [Reg_read (get_claim_complete_addr cf s)
                     (regs s (get_claim_complete_addr cf s)),
                   Isr_call h (regs s (get_claim_complete_addr cf s)),
                   Reg_write (get_claim_complete_addr cf s)
                     (regs s (get_claim_complete_addr cf s))]\<rparr>)) \<and>
   (ext_isrs s ! unat (regs s (get_claim_complete_addr cf s)) = None \<longrightarrow>
      plic_isr_handler cf s = Inl (No_handler (regs s (get_claim_complete_addr cf s))))"
  by (simp add: plic_isr_handler_eq)

text \<open>
  On the example platform: interrupt 3 presented with no handler registered ends in the
  failure; handler 42 registered for interrupt 5, then interrupt 5 presented for claim,
  gives one claim read, one call of handler 42 with argument 5, one completion write of 5.
\<close>

theorem dispatch_claim_call_complete_witness:
  "plic_isr_handler demo_conf (demo_state 0 3) = Inl (No_handler 3) \<and>
   plic_set_isr_cb demo_conf 5 (Some 42) (demo_state 0 5)
     = Inr (demo_state 0 5\<lparr>ext_isrs := (replicate 8 None)[5 := Some 42]\<rparr>) \<and>
   plic_isr_handler demo_conf (demo_state 0 5\<lparr>ext_isrs := (replicate 8 None)[5 := Some 42]\<rparr>)
     = Inr (demo_state 0 5
             \<lparr>regs := (regs (demo_state 0 5))(0x0C200004 := 5),
              ext_isrs := (replicate 8 None)[5 := Some 42],
              trace := [Reg_read 0x0C200004 5, Isr_call 42 5, Reg_write 0x0C200004 5]\<rparr>)"
proof -
  let ?s = "demo_state 0 5\<lparr>ext_isrs := (replicate 8 None)[5 := Some 42]\<rparr>"
  have reg: "plic_set_isr_cb demo_conf 5 (Some 42) (demo_state 0 5) = Inr ?s"
    by (simp add: plic_set_isr_cb_def demo_conf_def)
  have c: "regs ?s (get_claim_complete_addr demo_conf ?s) = 5"
    by simp
  have b: "unat (regs ?s (get_claim_complete_addr demo_conf ?s)) < length (ext_isrs ?s)"
    by (simp only: c) simp
  have h: "ext_isrs ?s ! unat (regs ?s (get_claim_complete_addr demo_conf ?s)) = Some 42"
    by (simp only: c) simp
  from dispatch_claim_call_complete [OF b, THEN conjunct1, rule_format, OF h]
  have "plic_isr_handler demo_conf ?s =
        Inr (?s\<lparr>regs := (regs ?s)(get_claim_complete_addr demo_conf ?s :=
                                 regs ?s (get_claim_complete_addr demo_conf ?s)),
                trace := trace ?s @
                  [Reg_read (get_claim_complete_addr demo_conf ?s)
                     (regs ?s (get_claim_complete_addr demo_conf ?s)),
                   Isr_call 42 (regs ?s (get_claim_complete_addr demo_conf ?s)),
                   Reg_write (get_claim_complete_addr demo_conf ?s)
                     (regs ?s (get_claim_complete_addr demo_conf ?s))]\<rparr>)" .
  then have "plic_isr_handler demo_conf ?s =
        Inr (demo_state 0 5
             \<lparr>regs := (regs (demo_state 0 5))(0x0C200004 := 5),
              ext_isrs := (replicate 8 None)[5 := Some 42],
              trace := [Reg_read 0x0C200004 5, Isr_call 42 5, Reg_write 0x0C200004 5]\<rparr>)"
    by simp
  moreover have "plic_isr_handler demo_conf (demo_state 0 3) = Inl (No_handler 3)"
  proof -
    let ?e = "demo_state 0 3"
    have c3: "regs ?e (get_claim_complete_addr demo_conf ?e) = 3"
      by simp
    have b3: "unat (regs ?e (get_claim_complete_addr demo_conf ?e)) < length (ext_isrs ?e)"
      by (simp only: c3) simp
    have n3: "ext_isrs ?e ! unat (regs ?e (get_claim_complete_addr demo_conf ?e)) = None"
      by (simp only: c3) simp
    from dispatch_claim_call_complete [OF b3, THEN conjunct2, rule_format, OF n3] c3
    show ?thesis by simp
  qed
  ultimately show ?thesis using reg by simp
qed

subsection \<open>Initialisation\<close>

lemma plic_set_priority_ok:
  "irq \<noteq> 0 \<Longrightarrow> irq \<le> PLIC_NUM_INTERRUPTS cf \<Longrightarrow>
   plic_set_priority cf irq priority s
     = Inr (reg32_write (PLIC_CTRL_ADDR cf + PLIC_PRIORITY_OFFSET cf + 4 * irq) priority s)"
  by (simp add: plic_set_priority_def)

lemma plic_init_loop_step:
  assumes "plic_init_loop cf i s = Inr s'" and "i \<le> PLIC_NUM_INTERRUPTS cf"
  shows "i \<noteq> 0"
    and "plic_init_loop cf (i + 1)
           (reg32_write (PLIC_CTRL_ADDR cf + PLIC_PRIORITY_OFFSET cf + 4 * i) 0
              (plic_disable_interrupt cf i s)) = Inr s'"
proof -
  from assms have *: "(case plic_set_priority cf i 0 (plic_disable_interrupt cf i s) of
              Inl e \<Rightarrow> Inl e
            | Inr t \<Rightarrow> plic_init_loop cf (i + 1) t) = Inr s'"
    by (subst (asm) plic_init_loop.simps) simp
  then show nz: "i \<noteq> 0"
    by (auto simp: plic_set_priority_def split: if_splits)
  from * show "plic_init_loop cf (i + 1)
           (reg32_write (PLIC_CTRL_ADDR cf + PLIC_PRIORITY_OFFSET cf + 4 * i) 0
              (plic_disable_interrupt cf i s)) = Inr s'"
    by (simp add: plic_set_priority_ok [OF nz assms(2)])
qed

lemma plic_init_loop_done:
  "\<not> i \<le> PLIC_NUM_INTERRUPTS cf \<Longrightarrow> plic_init_loop cf i s = Inr s"
  by (subst plic_init_loop.simps) simp

lemma plic_init_loop_frame:
  "plic_init_loop cf i s = Inr s' \<Longrightarrow> mhartid s' = mhartid s \<and> ext_isrs s' = ext_isrs s"
proof (induction cf i s rule: plic_init_loop.induct)
  case (1 cf i s)
  show ?case
  proof (cases "i \<le> PLIC_NUM_INTERRUPTS cf")
    case True
    note st = plic_init_loop_step [OF "1.prems" True]
    from "1.IH" [OF True plic_set_priority_ok [OF st(1) True] st(2)]
    show ?thesis by (simp add: plic_disable_interrupt_eq)
  next
    case False
    with "1.prems" show ?thesis by (simp add: plic_init_loop_done)
  qed
qed

lemma plic_init_loop_only_clears:
  "plic_init_loop cf i s = Inr s' \<Longrightarrow> bit (regs s' a) n \<Longrightarrow> bit (regs s a) n"
proof (induction cf i s rule: plic_init_loop.induct)
  case (1 cf i s)
  show ?case
  proof (cases "i \<le> PLIC_NUM_INTERRUPTS cf")
    case True
    note st = plic_init_loop_step [OF "1.prems"(1) True]
    from "1.IH" [OF True plic_set_priority_ok [OF st(1) True] st(2) "1.prems"(2)]
    show ?thesis
      by (simp add: plic_disable_interrupt_eq bit_and_iff split: if_splits)
  next
    case False
    with "1.prems" show ?thesis by (simp add: plic_init_loop_done)
  qed
qed

lemma plic_init_loop_keeps_zero:
  assumes "plic_init_loop cf i s = Inr s'" and "regs s a = 0"
  shows "regs s' a = 0"
proof (rule bit_eqI)
  fix n
  from plic_init_loop_only_clears [OF assms(1), of a n] assms(2)
  show "bit (regs s' a) n = bit (0 :: u32) n" by auto
qed

lemma plic_init_loop_clears:
  "plic_init_loop cf i s = Inr s' \<Longrightarrow> i \<le> j \<Longrightarrow> j \<le> PLIC_NUM_INTERRUPTS cf \<Longrightarrow>
   \<not> bit (regs s' (get_irq_reg cf s j)) (unat j mod 32) \<and>
   regs s' (PLIC_CTRL_ADDR cf + PLIC_PRIORITY_OFFSET cf + 4 * j) = 0"
proof (induction cf i s rule: plic_init_loop.induct)
  case (1 cf i s)
  let ?E = "get_irq_reg cf s i"
  let ?P = "PLIC_CTRL_ADDR cf + PLIC_PRIORITY_OFFSET cf + 4 * i"
  let ?s2 = "reg32_write ?P 0 (plic_disable_interrupt cf i s)"
  from "1.prems" have le: "i \<le> PLIC_NUM_INTERRUPTS cf" by simp
  note st = plic_init_loop_step [OF "1.prems"(1) le]
  show ?case
  proof (cases "j = i")
    case True
    have k: "unat i mod 32 < 32" by simp
    have "\<not> bit (regs ?s2 ?E) (unat i mod 32)"
      by (simp add: plic_disable_interrupt_eq bit_clear_one [OF k])
    then have "\<not> bit (regs s' ?E) (unat i mod 32)"
      using plic_init_loop_only_clears [OF st(2)] by blast
    moreover have "regs ?s2 ?P = 0" by simp
    then have "regs s' ?P = 0"
      by (rule plic_init_loop_keeps_zero [OF st(2)])
    ultimately show ?thesis using True by simp
  next
    case False
    with "1.prems"(2) have "i < j" by simp
    then have "i + 1 \<le> j" by (rule inc_le)
    have "get_irq_reg cf ?s2 j = get_irq_reg cf s j"
      by (rule get_irq_reg_cong) (simp add: plic_disable_interrupt_eq)
    with "1.IH" [OF le plic_set_priority_ok [OF st(1) le] st(2) \<open>i + 1 \<le> j\<close> "1.prems"(3)]
    show ?thesis by simp
  qed
qed

lemma plic_init_loop_returns:
  "PLIC_NUM_INTERRUPTS cf \<noteq> - 1 \<Longrightarrow> i \<noteq> 0 \<Longrightarrow> \<exists>s'. plic_init_loop cf i s = Inr s'"
proof (induction cf i s rule: plic_init_loop.induct)
  case (1 cf i s)
  show ?case
  proof (cases "i \<le> PLIC_NUM_INTERRUPTS cf")
    case True
    have "i \<noteq> - 1"
    proof
      assume "i = - 1"
      with True have "- 1 \<le> PLIC_NUM_INTERRUPTS cf" by simp
      then have "PLIC_NUM_INTERRUPTS cf = - 1"
        by (rule order.antisym [OF word_n1_ge])
      with "1.prems"(1) show False by simp
    qed
    then have "i + 1 \<noteq> 0"
      by (simp add: eq_neg_iff_add_eq_0 [symmetric])
    from "1.IH" [OF True plic_set_priority_ok [OF "1.prems"(2) True] "1.prems"(1) this]
    obtain s' where "plic_init_loop cf (i + 1)
        (reg32_write (PLIC_CTRL_ADDR cf + PLIC_PRIORITY_OFFSET cf + 4 * i) 0
           (plic_disable_interrupt cf i s)) = Inr s'"
      by blast
    then have "plic_init_loop cf i s = Inr s'"
      by (subst plic_init_loop.simps)
         (simp add: True plic_set_priority_ok [OF "1.prems"(2) True])
    then show ?thesis by blast
  next
    case False
    then show ?thesis by (simp add: plic_init_loop_done)
  qed
qed

lemma plic_init_loop_all_ids:
  "plic_init_loop cf i s = Inr s' \<Longrightarrow> PLIC_NUM_INTERRUPTS cf \<noteq> - 1"
proof (induction cf i s rule: plic_init_loop.induct)
  case (1 cf i s)
  show ?case
  proof
    assume m: "PLIC_NUM_INTERRUPTS cf = - 1"
    then have le: "i \<le> PLIC_NUM_INTERRUPTS cf" by simp
    note st = plic_init_loop_step [OF "1.prems" le]
    from "1.IH" [OF le plic_set_priority_ok [OF st(1) le] st(2)] m
    show False by simp
  qed
qed


lemma and_not_bit_clear:
  "k < 32 \<Longrightarrow> \<not> bit (v :: u32) k \<Longrightarrow> v AND NOT (2 ^ k) = v"
  by (rule bit_eqI) (auto simp: bit_clear_one)

lemma plic_init_loop_fixed:
  "plic_init_loop cf i s = Inr s' \<Longrightarrow>
   (\<And>j. i \<le> j \<Longrightarrow> j \<le> PLIC_NUM_INTERRUPTS cf \<Longrightarrow>
      \<not> bit (regs s (get_irq_reg cf s j)) (unat j mod 32) \<and>
      regs s (PLIC_CTRL_ADDR cf + PLIC_PRIORITY_OFFSET cf + 4 * j) = 0) \<Longrightarrow>
   regs s' = regs s"
proof (induction cf i s rule: plic_init_loop.induct)
  case (1 cf i s)
  let ?E = "get_irq_reg cf s i"
  let ?P = "PLIC_CTRL_ADDR cf + PLIC_PRIORITY_OFFSET cf + 4 * i"
  let ?s2 = "reg32_write ?P 0 (plic_disable_interrupt cf i s)"
  show ?case
  proof (cases "i \<le> PLIC_NUM_INTERRUPTS cf")
    case True
    note st = plic_init_loop_step [OF "1.prems"(1) True]
    have k: "unat i mod 32 < 32" by simp
    from "1.prems"(2) [OF order_refl True]
    have clr: "\<not> bit (regs s ?E) (unat i mod 32)" and zero: "regs s ?P = 0"
      by simp_all
    have "regs (plic_disable_interrupt cf i s) = regs s"
      by (simp add: plic_disable_interrupt_eq and_not_bit_clear [OF k clr])
    with zero have same: "regs ?s2 = regs s"
      by (simp add: fun_upd_idem)
    have hart: "mhartid ?s2 = mhartid s"
      by (simp add: plic_disable_interrupt_eq)
    have "i \<noteq> - 1"
    proof
      assume "i = - 1"
      with True have "- 1 \<le> PLIC_NUM_INTERRUPTS cf" by simp
      then have "PLIC_NUM_INTERRUPTS cf = - 1"
        by (rule order.antisym [OF word_n1_ge])
      with plic_init_loop_all_ids [OF "1.prems"(1)] show False by simp
    qed
    have "regs s' = regs ?s2"
    proof (rule "1.IH" [OF True plic_set_priority_ok [OF st(1) True] st(2)])
      fix j
      assume "i + 1 \<le> j" and hi: "j \<le> PLIC_NUM_INTERRUPTS cf"
      with \<open>i \<noteq> - 1\<close> have "i \<le> j"
        by (simp add: inc_less_eq_iff)
      then have g: "\<not> bit (regs s (get_irq_reg cf s j)) (unat j mod 32) \<and>
            regs s (PLIC_CTRL_ADDR cf + PLIC_PRIORITY_OFFSET cf + 4 * j) = 0"
        using hi by (rule "1.prems"(2))
      show "\<not> bit (regs ?s2 (get_irq_reg cf ?s2 j)) (unat j mod 32) \<and>
            regs ?s2 (PLIC_CTRL_ADDR cf + PLIC_PRIORITY_OFFSET cf + 4 * j) = 0"
        unfolding same get_irq_reg_cong [OF hart] by (rule g)
    qed
    with same show ?thesis by simp
  next
    case False
    with "1.prems"(1) show ?thesis by (simp add: plic_init_loop_done)
  qed
qed

lemma plic_init_Inr:
  "plic_init cf s = Inr s' \<longleftrightarrow>
     (\<exists>t. plic_init_loop cf 1 s = Inr t \<and> s' = plic_set_threshold cf 0 t)"
  by (auto simp: plic_init_def split: sum.splits)

lemma plic_init_returns:
  "PLIC_NUM_INTERRUPTS cf \<noteq> - 1 \<Longrightarrow> \<exists>s'. plic_init cf s = Inr s'"
  using plic_init_loop_returns [of cf 1 s] by (auto simp: plic_init_Inr)

lemma plic_set_threshold_simps [simp]:
  "mhartid (plic_set_threshold cf v s) = mhartid s"
  "regs (plic_set_threshold cf v s) = (regs s)(get_threshold_addr cf s := v)"
  "ext_isrs (plic_set_threshold cf v s) = ext_isrs s"
  by (simp_all add: plic_set_threshold_def Let_def)

lemma plic_init_post:
  assumes "plic_init cf s = Inr s'"
  shows "mhartid s' = mhartid s"
    and "ext_isrs s' = ext_isrs s"
    and "regs s' (get_threshold_addr cf s') = 0"
    and "irq \<noteq> 0 \<Longrightarrow> irq \<le> PLIC_NUM_INTERRUPTS cf \<Longrightarrow>
         \<not> bit (regs s' (get_irq_reg cf s' irq)) (unat irq mod 32)"
    and "irq \<noteq> 0 \<Longrightarrow> irq \<le> PLIC_NUM_INTERRUPTS cf \<Longrightarrow>
         regs s' (PLIC_CTRL_ADDR cf + PLIC_PRIORITY_OFFSET cf + 4 * irq) = 0"
proof -
  from assms obtain t where t: "plic_init_loop cf 1 s = Inr t"
    and s': "s' = plic_set_threshold cf 0 t"
    by (auto simp: plic_init_Inr)
  note fr = plic_init_loop_frame [OF t]
  from fr show hart: "mhartid s' = mhartid s" by (simp add: s')
  from fr show "ext_isrs s' = ext_isrs s" by (simp add: s')
  have th: "get_threshold_addr cf s' = get_threshold_addr cf t"
    by (rule get_threshold_addr_cong) (simp add: s')
  then show "regs s' (get_threshold_addr cf s') = 0" by (simp add: s')
  {
    assume nz: "irq \<noteq> 0" and le: "irq \<le> PLIC_NUM_INTERRUPTS cf"
    from nz have "0 < irq" by (rule word_neq_0_conv [THEN iffD1])
    then have "0 + 1 \<le> irq" by (rule inc_le)
    then have "1 \<le> irq" by simp
    note c = plic_init_loop_clears [OF t this le]
    have "get_irq_reg cf s' irq = get_irq_reg cf s irq"
      by (rule get_irq_reg_cong [OF hart])
    with c show "\<not> bit (regs s' (get_irq_reg cf s' irq)) (unat irq mod 32)"
      by (simp add: s')
    from c show "regs s' (PLIC_CTRL_ADDR cf + PLIC_PRIORITY_OFFSET cf + 4 * irq) = 0"
      by (simp add: s')
  }
qed

text \<open>
  Claim C4. Initialisation returns whenever \<open>PLIC_NUM_INTERRUPTS\<close> is not the largest
  32-bit value, and whenever it returns, every interrupt number from 1 to
  \<open>PLIC_NUM_INTERRUPTS\<close> has its enable bit in the calling hart's enable words
  cleared and its priority register at 0, and the calling hart's threshold register is 0.
\<close>

theorem plic_init_quiescent:
  "(PLIC_NUM_INTERRUPTS cf \<noteq> - 1 \<longrightarrow> (\<exists>s'. plic_init cf s = Inr s')) \<and>
   (\<forall>s'. plic_init cf s = Inr s' \<longrightarrow>
      (\<forall>irq. irq \<noteq> 0 \<and> irq \<le> PLIC_NUM_INTERRUPTS cf \<longrightarrow>
         \<not> bit (regs s' (get_irq_reg cf s' irq)) (unat irq mod 32) \<and>
         regs s' (PLIC_CTRL_ADDR cf + PLIC_PRIORITY_OFFSET cf + 4 * irq) = 0) \<and>
      regs s' (get_threshold_addr cf s') = 0)"
proof (intro conjI allI impI)
  assume "PLIC_NUM_INTERRUPTS cf \<noteq> - 1"
  then show "\<exists>s'. plic_init cf s = Inr s'" by (rule plic_init_returns)
next
  fix s' irq
  assume ok: "plic_init cf s = Inr s'" and "irq \<noteq> 0 \<and> irq \<le> PLIC_NUM_INTERRUPTS cf"
  then have nz: "irq \<noteq> 0" and le: "irq \<le> PLIC_NUM_INTERRUPTS cf" by simp_all
  show "\<not> bit (regs s' (get_irq_reg cf s' irq)) (unat irq mod 32)"
    by (rule plic_init_post(4) [OF ok nz le])
  show "regs s' (PLIC_CTRL_ADDR cf + PLIC_PRIORITY_OFFSET cf + 4 * irq) = 0"
    by (rule plic_init_post(5) [OF ok nz le])
next
  fix s'
  assume "plic_init cf s = Inr s'"
  then show "regs s' (get_threshold_addr cf s') = 0" by (rule plic_init_post(3))
qed

text \<open>
  The example platform with every register full of ones: initialisation returns, and
  interrupt 5 is disabled with priority 0, the threshold is 0.
\<close>

theorem plic_init_quiescent_witness:
  "\<exists>s'. plic_init demo_conf (demo_state 0xFFFFFFFF 0) = Inr s' \<and>
        \<not> bit (regs s' (get_irq_reg demo_conf s' 5)) 5 \<and>
        regs s' 0x0C000014 = 0 \<and>
        regs s' (get_threshold_addr demo_conf s') = 0"
proof -
  note q = plic_init_quiescent [of demo_conf "demo_state 0xFFFFFFFF 0"]
  have "PLIC_NUM_INTERRUPTS demo_conf \<noteq> - 1"
    by (simp add: demo_conf_def)
  with q obtain s' where ok: "plic_init demo_conf (demo_state 0xFFFFFFFF 0) = Inr s'"
    by blast
  have five: "(5 :: u32) \<noteq> 0 \<and> 5 \<le> PLIC_NUM_INTERRUPTS demo_conf"
    by (simp add: demo_conf_def)
  from q ok have post:
    "(\<forall>irq. irq \<noteq> 0 \<and> irq \<le> PLIC_NUM_INTERRUPTS demo_conf \<longrightarrow>
         \<not> bit (regs s' (get_irq_reg demo_conf s' irq)) (unat irq mod 32) \<and>
         regs s' (PLIC_CTRL_ADDR demo_conf + PLIC_PRIORITY_OFFSET demo_conf + 4 * irq) = 0) \<and>
      regs s' (get_threshold_addr demo_conf s') = 0"
    by blast
  then have "\<not> bit (regs s' (get_irq_reg demo_conf s' 5)) (unat (5 :: u32) mod 32) \<and>
         regs s' (PLIC_CTRL_ADDR demo_conf + PLIC_PRIORITY_OFFSET demo_conf + 4 * 5) = 0"
    using five by blast
  then have "\<not> bit (regs s' (get_irq_reg demo_conf s' 5)) 5 \<and> regs s' 0x0C000014 = 0"
    by (simp add: demo_conf_def)
  with ok post show ?thesis by blast
qed

text \<open>
  Claim C9. From every state in which initialisation returns (every state, when
  \<open>PLIC_NUM_INTERRUPTS\<close> is not the largest 32-bit value), running it again on the
  result returns too and leaves every register, enable words, priority registers and
  threshold among them, as the first run left it; the hart register and the callback
  table are untouched.
\<close>

theorem plic_init_idempotent:
  "(PLIC_NUM_INTERRUPTS cf \<noteq> - 1 \<longrightarrow> (\<exists>s1. plic_init cf s = Inr s1)) \<and>
   (\<forall>s1. plic_init cf s = Inr s1 \<longrightarrow>
      (\<exists>s2. plic_init cf s1 = Inr s2 \<and> regs s2 = regs s1 \<and>
            mhartid s2 = mhartid s1 \<and> ext_isrs s2 = ext_isrs s1))"
proof (intro conjI allI impI)
  assume "PLIC_NUM_INTERRUPTS cf \<noteq> - 1"
  then show "\<exists>s1. plic_init cf s = Inr s1" by (rule plic_init_returns)
next
  fix s1
  assume one: "plic_init cf s = Inr s1"
  then obtain t where "plic_init_loop cf 1 s = Inr t"
    by (auto simp: plic_init_Inr)
  then have "PLIC_NUM_INTERRUPTS cf \<noteq> - 1" by (rule plic_init_loop_all_ids)
  then obtain s2 where two: "plic_init cf s1 = Inr s2"
    using plic_init_returns by blast
  then obtain t2 where t2: "plic_init_loop cf 1 s1 = Inr t2"
    and s2: "s2 = plic_set_threshold cf 0 t2"
    by (auto simp: plic_init_Inr)
  have "regs t2 = regs s1"
  proof (rule plic_init_loop_fixed [OF t2])
    fix j :: u32
    assume "1 \<le> j" and le: "j \<le> PLIC_NUM_INTERRUPTS cf"
    then have "j \<noteq> 0" by auto
    from plic_init_post(4,5) [OF one this le]
    show "\<not> bit (regs s1 (get_irq_reg cf s1 j)) (unat j mod 32) \<and>
          regs s1 (PLIC_CTRL_ADDR cf + PLIC_PRIORITY_OFFSET cf + 4 * j) = 0"
      by simp
  qed
  moreover have "get_threshold_addr cf t2 = get_threshold_addr cf s1"
    by (rule get_threshold_addr_cong) (simp add: plic_init_loop_frame [OF t2])
  moreover note plic_init_post(3) [OF one]
  ultimately have "regs s2 = regs s1"
    by (simp add: s2 fun_upd_idem)
  with two plic_init_post(1,2) [OF two]
  show "\<exists>s2. plic_init cf s1 = Inr s2 \<and> regs s2 = regs s1 \<and>
            mhartid s2 = mhartid s1 \<and> ext_isrs s2 = ext_isrs s1"
    by blast
qed

text \<open>The same starting state: two runs in a row return, the second changes no register.\<close>

theorem plic_init_idempotent_witness:
  "\<exists>s1 s2. plic_init demo_conf (demo_state 0xFFFFFFFF 0) = Inr s1 \<and>
           plic_init demo_conf s1 = Inr s2 \<and> regs s2 = regs s1"
proof -
  note q = plic_init_idempotent [of demo_conf "demo_state 0xFFFFFFFF 0"]
  have "PLIC_NUM_INTERRUPTS demo_conf \<noteq> - 1"
    by (simp add: demo_conf_def)
  with q obtain s1 where ok: "plic_init demo_conf (demo_state 0xFFFFFFFF 0) = Inr s1"
    by blast
  with q obtain s2 where "plic_init demo_conf s1 = Inr s2" and "regs s2 = regs s1"
    by blast
  with ok show ?thesis by blast
qed

end
